theory Spec2Isabelle
  imports Main "HOL-Library.Log_Nat" "HOL-Library.Sublist"
begin

section \<open>turboseti\_stream: the data adapter of \<open>doppler_finder.py\<close>\<close>

text \<open>
  The development embeds the constructor of \<open>DopplerFinder\<close> (search geometry and
  drift-index row), the class \<open>DataLoader\<close> and the output-file preparation of
  \<open>_find_ET_common\<close>. Python exceptions are values of the type \<open>error\<close>; a function
  that can raise returns \<open>error + 'a\<close> with \<open>Inl\<close> for the exception.
\<close>

datatype error =
    TypeError | ValueError | OverflowError | ZeroDivisionError | AssertionError | IndexError
  | OSError | SystemExit | FileNotFoundError | IsADirectoryError | NotADirectoryError

subsection \<open>Binary64 arithmetic (lines 215, 271 and 282)\<close>

text \<open>
  \<open>np.log2\<close> works on binary64 numbers. A binary64 number is \<open>M * 2 powi j\<close> with an integer
  \<open>M\<close> of at most 53 bits; \<open>b64_round\<close> maps a real to the nearest one, ties to the even
  \<open>M\<close>, as the conversion of an integer to a float does. The exponent range is not
  modelled: every number rounded here lies between \<open>1 / 2\<close> and \<open>2 ^ 64\<close>, or is a
  logarithm of such a number. \<open>np_log2 n\<close> converts the integer and takes the logarithm correctly
  rounded.
\<close>

definition round_half_even :: "real \<Rightarrow> int" where
  "round_half_even y =
     (let f = \<lfloor>y\<rfloor>; r = y - of_int f
      in if r < 1 / 2 then f else if 1 / 2 < r then f + 1 else if even f then f else f + 1)"

definition b64_round :: "real \<Rightarrow> real" where
  "b64_round x =
     (if x = 0 then 0
      else (let u = 2 powi (\<lfloor>log 2 \<bar>x\<bar>\<rfloor> - 52)
            in sgn x * of_int (round_half_even (\<bar>x\<bar> / u)) * u))"

definition np_log2 :: "int \<Rightarrow> real" where
  "np_log2 n = b64_round (log 2 (b64_round (of_int n)))"

subsection \<open>Padded time-step count (line 215)\<close>

text \<open>
  \<^verbatim>\<open>tsteps = int(math.pow(2, math.ceil(np.log2(math.floor(n_ints_in_file)))))\<close>

  \<open>n_ints_in_file\<close> is a Python int, so \<open>math.floor\<close> is the identity. numpy takes an
  integer from \<open>-2 ^ 63\<close> up to \<open>2 ^ 64 - 1\<close> as a 64-bit integer and converts it to
  binary64; an integer outside that range becomes an object array, for which \<open>np.log2\<close>
  raises TypeError. For \<open>0\<close> the logarithm is \<open>-inf\<close> and \<open>math.ceil\<close> raises
  OverflowError; for a negative count it is \<open>nan\<close> and \<open>math.ceil\<close> raises ValueError.
  \<open>math.pow(2, k)\<close> is exact for the exponents that occur (\<open>0\<close> to \<open>64\<close>), and so is
  \<open>int\<close> on it.
\<close>

definition tsteps_of :: "int \<Rightarrow> error + int" where
  "tsteps_of n_ints_in_file =
     (if n_ints_in_file < - (2 ^ 63) \<or> 2 ^ 64 \<le> n_ints_in_file then Inl TypeError
      else if n_ints_in_file < 0 then Inl ValueError
      else if n_ints_in_file = 0 then Inl OverflowError
      else Inr (2 ^ nat \<lceil>np_log2 n_ints_in_file\<rceil>))"

subsection \<open>Search geometry (lines 212 to 267)\<close>

text \<open>
  The header and \<open>data_dict\<close> are \<open>Map\<close> objects with a fixed key set; they are records
  here. Their integer, string and boolean entries are kept. The entries computed in
  binary64 (\<open>obs_length\<close>, \<open>DELTAF\<close>, \<open>FCNTR\<close>, \<open>drift_rate_resolution\<close>) and the
  floats passed through (\<open>MJD\<close>, \<open>RA\<close>, \<open>DEC\<close>, \<open>DELTAT\<close>, the drift limits, \<open>snr\<close>)
  are left out: no integer entry depends on them. What remains of them is control flow.
  Line 222 multiplies \<open>n_ints_in_file\<close>, which is below \<open>2 ^ 64\<close> there, by a float.
  Line 223 divides a Python float by \<open>n_fine_chans\<close>: the integer is converted to a
  float first, which raises OverflowError when it rounds to \<open>2 ^ 1024\<close> or beyond, that is
  from \<open>2 ^ 1024 - 2 ^ 970\<close> on in absolute value, and the division raises
  ZeroDivisionError for \<open>0\<close>. Line 262 is a division of integers: \<open>//\<close> rounds towards
  minus infinity, as \<open>div\<close> on \<open>int\<close> does, and raises ZeroDivisionError when
  \<open>n_coarse_chan\<close> is \<open>0\<close>.
\<close>

record obs_header =
  h_coarse_chan :: int
  NAXIS1 :: int
  baryv :: int
  SOURCE :: string

record data_dict =
  tsteps_valid :: int
  tsteps :: int
  tdwidth :: int
  fftlen :: int
  shoulder_size :: int
  coarse_chan :: int
  header :: obs_header

record find_doppler_instance =
  fdi_filename :: string
  fdi_out_dir :: string
  status :: bool
  flagging :: bool
  append_output :: bool
  flag_blank_dc :: bool
  n_coarse_chan :: int

definition derive_geometry :: "string \<Rightarrow> int \<Rightarrow> int \<Rightarrow> int \<Rightarrow> int \<Rightarrow> error + data_dict" where
  "derive_geometry source_name n_fine_chans n_ints_in_file coarse_chan_num n_coarse_chan' =
     (let fftlen' = n_fine_chans;
          shoulder_size' = 0;
          tsteps_valid' = n_ints_in_file
      in case tsteps_of n_ints_in_file of
           Inl e \<Rightarrow> Inl e
         | Inr tsteps' \<Rightarrow>
             if 2 ^ 1024 - 2 ^ 970 \<le> \<bar>n_fine_chans\<bar> then Inl OverflowError
             else if n_fine_chans = 0 then Inl ZeroDivisionError
             else let hdr = \<lparr>h_coarse_chan = 0, NAXIS1 = fftlen', baryv = 0,
                              SOURCE = source_name\<rparr>
                  in if n_coarse_chan' = 0 then Inl ZeroDivisionError
                     else Inr \<lparr>tsteps_valid = tsteps_valid',
                               tsteps = tsteps',
                               tdwidth = fftlen' + shoulder_size' * tsteps',
                               fftlen = n_fine_chans div n_coarse_chan',
                               shoulder_size = shoulder_size',
                               coarse_chan = coarse_chan_num,
                               header = hdr\<rparr>)"

subsection \<open>Drift-index row (lines 271 to 285)\<close>

text \<open>
  \<open>np.genfromtxt\<close> returns a two-dimensional array for a file of several rows and
  several columns, and a one-dimensional array for a file of a single row or a single
  column. The files \<open>drift_indexes_array_k.txt\<close> belong to the package \<open>turbo_seti\<close>:
  the resources are a parameter, a partial map from \<open>k\<close> to the parsed file.
\<close>

datatype ndarray = Array1 "int list" | Array2 "int list list"

type_synonym resources = "nat \<rightharpoonup> ndarray"

text \<open>
  \<^verbatim>\<open>dia_num = int(np.log2(self.data_dict.tsteps))\<close>: the same binary64 logarithm, with
  the same TypeError outside the 64-bit range; \<open>int\<close> truncates, and raises OverflowError
  on \<open>-inf\<close> and ValueError on \<open>nan\<close>.
\<close>

definition dia_num_of :: "int \<Rightarrow> error + nat" where
  "dia_num_of t =
     (if t < - (2 ^ 63) \<or> 2 ^ 64 \<le> t then Inl TypeError
      else if t < 0 then Inl ValueError
      else if t = 0 then Inl OverflowError
      else Inr (nat \<lfloor>np_log2 t\<rfloor>))"

text \<open>The slice \<open>row[0:n]\<close>: a negative bound counts from the end, and both clamp.\<close>

definition slice_to :: "int \<Rightarrow> 'a list \<Rightarrow> 'a list" where
  "slice_to n row = (if 0 \<le> n then take (nat n) row else take (nat (int (length row) + n)) row)"

text \<open>
  \<open>di_array[i, 0:n]\<close>: two indices on a one-dimensional array raise IndexError; on a
  table of \<open>r\<close> rows the row index must lie in \<open>[-r, r)\<close>, and a negative one counts from
  the last row.
\<close>

definition index_row :: "ndarray \<Rightarrow> int \<Rightarrow> int \<Rightarrow> error + int list" where
  "index_row di_array i n =
     (case di_array of
        Array1 _ \<Rightarrow> Inl IndexError
      | Array2 rows \<Rightarrow>
          (let r = int (length rows)
           in if i < - r \<or> r \<le> i then Inl IndexError
              else Inr (slice_to n (rows ! nat (if i < 0 then i + r else i)))))"

text \<open>
  \<open>ts2 = int(tsteps / 2)\<close>: the quotient of two Python integers is the binary64 number
  nearest to the exact quotient, and \<open>int\<close> truncates it towards zero. The line is
  reached with \<open>0 < tsteps < 2 ^ 64\<close> only, where the quotient is in range.
\<close>

definition half_of :: "int \<Rightarrow> int" where
  "half_of t =
     (if 0 \<le> t then \<lfloor>b64_round (of_int t / 2)\<rfloor> else \<lceil>b64_round (of_int t / 2)\<rceil>)"

text \<open>The \<open>assert\<close> on \<open>os.path.isfile\<close> raises AssertionError.\<close>

definition load_drift_indexes :: "resources \<Rightarrow> data_dict \<Rightarrow> error + int list" where
  "load_drift_indexes res dd =
     (case dia_num_of (tsteps dd) of
        Inl e \<Rightarrow> Inl e
      | Inr dia_num \<Rightarrow>
          (case res dia_num of
             None \<Rightarrow> Inl AssertionError
           | Some di_array \<Rightarrow>
               (let ts2 = half_of (tsteps dd)
                in index_row di_array (tsteps_valid dd - 1 - ts2) (tsteps_valid dd))))"

subsection \<open>DataLoader (lines 61 to 92)\<close>

text \<open>
  The spectra are whatever object was stored last: the Python list \<open>[0, 0]\<close> of the
  constructor, or a matrix. The adapter never computes on the entries of a matrix, so
  their type is a parameter.
\<close>

datatype 'a spectra = PyList "int list" | NdArray "'a list list"

record 'a DataLoader =
  drift_indices :: "int list"
  data_obj :: data_dict
  spectra :: "'a spectra"

definition DataLoader_init :: "data_dict \<Rightarrow> int list \<Rightarrow> 'a DataLoader" where
  "DataLoader_init data_obj' drift_indices' =
     \<lparr>drift_indices = drift_indices', data_obj = data_obj', spectra = PyList [0, 0]\<rparr>"

text \<open>\<open>load\<close> is given a numpy matrix: its log line reads the \<open>shape\<close> of the argument.\<close>

definition load :: "'a list list \<Rightarrow> 'a DataLoader \<Rightarrow> 'a DataLoader" where
  "load m self = self\<lparr>spectra := NdArray m\<rparr>"

text \<open>
  \<open>stg.Frame(path)\<close> belongs to setigen: what it does with a path is a parameter, either
  the matrix it decodes or the exception it raises. When it raises, \<open>self.spectra\<close> has
  not been assigned.
\<close>

definition load_file :: "(string \<Rightarrow> error + 'a list list) \<Rightarrow> string \<Rightarrow> 'a DataLoader \<Rightarrow> error + 'a DataLoader" where
  "load_file frames spectra_file_path self =
     (case frames spectra_file_path of
        Inl e \<Rightarrow> Inl e
      | Inr frame_data \<Rightarrow> Inr (self\<lparr>spectra := NdArray frame_data\<rparr>))"

definition get :: "'a DataLoader \<Rightarrow> data_dict \<times> 'a spectra \<times> int list" where
  "get self = (data_obj self, spectra self, drift_indices self)"

text \<open>\<open>len\<close> of a list, \<open>size\<close> of an array: the number of entries.\<close>

fun spectra_size :: "'a spectra \<Rightarrow> nat" where
  "spectra_size (PyList xs) = length xs"
| "spectra_size (NdArray m) = sum_list (map length m)"

text \<open>A sequence of loads, from the stream or from a file, stopping at the first that raises.\<close>

datatype 'a load_op = Load "'a list list" | LoadFile string

fun apply_load :: "(string \<Rightarrow> error + 'a list list) \<Rightarrow> 'a load_op \<Rightarrow> 'a DataLoader \<Rightarrow> error + 'a DataLoader" where
  "apply_load frames (Load m) self = Inr (load m self)"
| "apply_load frames (LoadFile p) self = load_file frames p self"

fun run_loads :: "(string \<Rightarrow> error + 'a list list) \<Rightarrow> 'a load_op list \<Rightarrow> 'a DataLoader \<Rightarrow> error + 'a DataLoader" where
  "run_loads frames [] self = Inr self"
| "run_loads frames (x # xs) self =
     (case apply_load frames x self of Inl e \<Rightarrow> Inl e | Inr self' \<Rightarrow> run_loads frames xs self')"

text \<open>What a load operation delivers, when it delivers.\<close>

fun delivered :: "(string \<Rightarrow> error + 'a list list) \<Rightarrow> 'a load_op \<Rightarrow> 'a list list option" where
  "delivered frames (Load m) = Some m"
| "delivered frames (LoadFile p) = (case frames p of Inl e \<Rightarrow> None | Inr m \<Rightarrow> Some m)"

subsection \<open>DopplerFinder (lines 95 to 288)\<close>

text \<open>
  The kernels and \<open>obs_info\<close> are objects of \<open>turbo_seti\<close> that the constructor only
  passes on; they are left out, as the float arguments are.
\<close>

record 'a DopplerFinder =
  filename :: string
  out_dir :: string
  fd_header :: obs_header
  fd_instance :: find_doppler_instance
  fd_data_dict :: data_dict
  dataloader :: "'a DataLoader"

definition DopplerFinder_init ::
  "resources \<Rightarrow> string \<Rightarrow> string \<Rightarrow> int \<Rightarrow> int \<Rightarrow> int \<Rightarrow> int \<Rightarrow> string \<Rightarrow> bool \<Rightarrow> bool \<Rightarrow> bool
     \<Rightarrow> error + 'a DopplerFinder" where
  "DopplerFinder_init res filename' source_name n_fine_chans n_ints_in_file coarse_chan_num
       n_coarse_chan' out_dir' flagging' append_output' blank_dc =
     (case derive_geometry source_name n_fine_chans n_ints_in_file coarse_chan_num n_coarse_chan' of
        Inl e \<Rightarrow> Inl e
      | Inr dd \<Rightarrow>
          (case load_drift_indexes res dd of
             Inl e \<Rightarrow> Inl e
           | Inr drift_indexes \<Rightarrow>
               Inr \<lparr>filename = filename',
                    out_dir = out_dir',
                    fd_header = header dd,
                    fd_instance = \<lparr>fdi_filename = filename', fdi_out_dir = out_dir',
                                    status = True, flagging = flagging',
                                    append_output = append_output',
                                    flag_blank_dc = blank_dc,
                                    n_coarse_chan = n_coarse_chan'\<rparr>,
                    fd_data_dict = dd,
                    dataloader = DataLoader_init dd drift_indexes\<rparr>))"

subsection \<open>Output files of a search (lines 291 to 302)\<close>

text \<open>
  The file system maps a path to a file with its text or to a directory.
  \<open>os.remove\<close> deletes a file and raises on a directory; \<open>open(path, "w")\<close> creates or
  truncates the file, and raises when the path is a directory or its parent is not one.
\<close>

datatype node = File string | Dir

type_synonym filesystem = "string \<rightharpoonup> node"

definition os_path_exists :: "filesystem \<Rightarrow> string \<Rightarrow> bool" where
  "os_path_exists fs p = (fs p \<noteq> None)"

definition os_remove :: "filesystem \<Rightarrow> string \<Rightarrow> error + filesystem" where
  "os_remove fs p =
     (case fs p of
        None \<Rightarrow> Inl FileNotFoundError
      | Some Dir \<Rightarrow> Inl IsADirectoryError
      | Some (File _) \<Rightarrow> Inr (fs(p := None)))"

definition dirname :: "string \<Rightarrow> string" where
  "dirname p = rev (drop 1 (dropWhile (\<lambda>c. c \<noteq> CHR ''/'') (rev p)))"

definition open_write :: "filesystem \<Rightarrow> string \<Rightarrow> string \<Rightarrow> error + filesystem" where
  "open_write fs p text =
     (case fs p of
        Some Dir \<Rightarrow> Inl IsADirectoryError
      | _ \<Rightarrow> if dirname p = [] then Inr (fs(p \<mapsto> File text))
             else (case fs (dirname p) of
                     None \<Rightarrow> Inl FileNotFoundError
                   | Some (File _) \<Rightarrow> Inl NotADirectoryError
                   | Some Dir \<Rightarrow> Inr (fs(p \<mapsto> File text))))"

text \<open>\<open>s.split('/')[-1]\<close>, \<open>s.replace(old, new)\<close> for a non-empty \<open>old\<close>, \<open>s.rstrip('/')\<close>.\<close>

definition last_component :: "string \<Rightarrow> string" where
  "last_component s = rev (takeWhile (\<lambda>c. c \<noteq> CHR ''/'') (rev s))"

fun replace :: "string \<Rightarrow> string \<Rightarrow> string \<Rightarrow> string" where
  "replace old new [] = []"
| "replace old new (c # cs) =
     (if old \<noteq> [] \<and> prefix old (c # cs)
      then new @ replace old new (drop (length old) (c # cs))
      else c # replace old new cs)"

definition rstrip_slash :: "string \<Rightarrow> string" where
  "rstrip_slash s = rev (dropWhile (\<lambda>c. c = CHR ''/'') (rev s))"

definition wfilename :: "'a DopplerFinder \<Rightarrow> string" where
  "wfilename self = replace ''.fil'' [] (replace ''.h5'' [] (last_component (filename self)))"

definition path_log :: "'a DopplerFinder \<Rightarrow> string" where
  "path_log self = rstrip_slash (out_dir self) @ ''/'' @ wfilename self @ ''.log''"

definition path_dat :: "'a DopplerFinder \<Rightarrow> string" where
  "path_dat self = rstrip_slash (out_dir self) @ ''/'' @ wfilename self @ ''.dat''"

text \<open>
  \<open>_find_ET_common\<close> up to the call of the search engine: the two removals and the
  log file opened for writing. \<open>preamble\<close> is the text of the three \<open>write\<close> calls.
\<close>

definition find_ET_common :: "string \<Rightarrow> 'a DopplerFinder \<Rightarrow> filesystem \<Rightarrow> error + filesystem" where
  "find_ET_common preamble self fs =
     (case (if os_path_exists fs (path_log self) then os_remove fs (path_log self) else Inr fs) of
        Inl e \<Rightarrow> Inl e
      | Inr fs1 \<Rightarrow>
          (case (if os_path_exists fs1 (path_dat self) then os_remove fs1 (path_dat self)
                 else Inr fs1) of
             Inl e \<Rightarrow> Inl e
           | Inr fs2 \<Rightarrow> open_write fs2 (path_log self) preamble))"

subsection \<open>Sample inputs\<close>

text \<open>
  A table of four rows and eight columns standing for \<open>drift_indexes_array_3.txt\<close>,
  the resources that hold only it, resources whose table for \<open>k = 3\<close> lost two rows,
  and a \<open>data_dict\<close> with given \<open>tsteps\<close> and \<open>tsteps_valid\<close>.
\<close>

definition sample_table :: "int list list" where
  "sample_table =
     [[0, 0, 0, 0, 1, 1, 1, 1], [0, 0, 0, 1, 1, 1, 2, 2],
      [0, 0, 1, 1, 2, 2, 3, 3], [0, 1, 1, 2, 2, 3, 3, 4]]"

definition sample_resources :: resources where
  "sample_resources = [3 \<mapsto> Array2 sample_table]"

definition short_resources :: resources where
  "short_resources = [3 \<mapsto> Array2 (take 2 sample_table)]"

definition sample_geometry :: "int \<Rightarrow> int \<Rightarrow> data_dict" where
  "sample_geometry t n =
     \<lparr>tsteps_valid = n, tsteps = t, tdwidth = 8, fftlen = 8, shoulder_size = 0,
      coarse_chan = 0,
      header = \<lparr>h_coarse_chan = 0, NAXIS1 = 8, baryv = 0, SOURCE = ''src''\<rparr>\<rparr>"

text \<open>
  A finder as the constructor builds it for six integrations of eight fine channels, in
  append mode; an output directory that holds the artifacts of an earlier search; one
  synthetic frame.
\<close>

definition sample_finder :: "real DopplerFinder" where
  "sample_finder =
     \<lparr>filename = ''/data/obs.h5'',
      out_dir = ''./out/'',
      fd_header = header (sample_geometry 8 6),
      fd_instance = \<lparr>fdi_filename = ''/data/obs.h5'', fdi_out_dir = ''./out/'',
                      status = True, flagging = False, append_output = True,
                      flag_blank_dc = True, n_coarse_chan = 1\<rparr>,
      fd_data_dict = sample_geometry 8 6,
      dataloader = DataLoader_init (sample_geometry 8 6) [0, 0, 0, 1, 1, 1]\<rparr>"

definition sample_fs :: filesystem where
  "sample_fs = [''./out'' \<mapsto> Dir, ''./out/obs.log'' \<mapsto> File ''old log'',
                ''./out/obs.dat'' \<mapsto> File ''old hits'']"

definition sample_frames :: "string \<Rightarrow> error + real list list" where
  "sample_frames p = (if p = ''synth.h5'' then Inr [[1, 2], [3, 4]] else Inl OSError)"

section \<open>Properties\<close>

subsection \<open>Binary64 rounding\<close>

lemma round_half_even_of_int: "round_half_even (of_int m) = m"
  by (simp add: round_half_even_def)

lemma round_half_even_range:
  "\<lfloor>y\<rfloor> \<le> round_half_even y" "round_half_even y \<le> \<lfloor>y\<rfloor> + 1"
  by (simp_all add: round_half_even_def Let_def)

lemma round_half_even_mono:
  assumes "a \<le> b"
  shows "round_half_even a \<le> round_half_even b"
proof (cases "\<lfloor>a\<rfloor> = \<lfloor>b\<rfloor>")
  case True
  then show ?thesis using assms by (auto simp: round_half_even_def Let_def)
next
  case False
  with assms have "\<lfloor>a\<rfloor> + 1 \<le> \<lfloor>b\<rfloor>" using floor_mono [OF assms] by linarith
  with round_half_even_range(2) [of a] round_half_even_range(1) [of b]
  show ?thesis by linarith
qed

lemma two_powr_of_int: "(2::real) powr (of_int e) = 2 powi e"
  by (simp add: powr_real_of_int power_int_def power_one_over inverse_eq_divide)

lemma binade:
  assumes "0 < x"
  shows "\<lfloor>log 2 x\<rfloor> = e \<longleftrightarrow> 2 powi e \<le> x \<and> x < 2 powi (e + 1)"
  using floor_log_eq_powr_iff [of x 2 e] assms two_powr_of_int [of e] two_powr_of_int [of "e + 1"]
  by simp

lemma binade_bounds:
  assumes "0 < x"
  shows "2 powi \<lfloor>log 2 x\<rfloor> \<le> x" and "x < 2 powi (\<lfloor>log 2 x\<rfloor> + 1)"
  using binade [OF assms, of "\<lfloor>log 2 x\<rfloor>"] by simp_all

lemma b64_round_pos:
  assumes "0 < x"
  shows "b64_round x = of_int (round_half_even (x / 2 powi (\<lfloor>log 2 x\<rfloor> - 52)))
                         * 2 powi (\<lfloor>log 2 x\<rfloor> - 52)"
  using assms by (simp add: b64_round_def Let_def)

lemma representable:
  fixes M :: int
  assumes "0 < M" and "M < 2 ^ 53"
  shows "b64_round (of_int M * 2 powi j) = of_int M * 2 powi j"
proof -
  define b where "b = floorlog 2 (nat M) - 1"
  have "2 ^ b \<le> nat M \<and> nat M < 2 ^ floorlog 2 (nat M)"
    using floorlog_bounds [of "nat M" 2] assms(1) by (simp add: b_def)
  moreover have "0 < floorlog 2 (nat M)"
    using assms(1) by (simp add: floorlog_eq_zero_iff zero_less_iff_neq_zero)
  ultimately have "2 ^ b \<le> nat M" "nat M < 2 ^ (b + 1)" by (simp_all add: b_def)
  then have lo: "(2::int) ^ b \<le> M" and hi: "M < 2 ^ (b + 1)"
    using assms(1) by (simp_all add: le_nat_iff nat_less_iff)
  from lo assms(2) have "(2::int) ^ b < 2 ^ 53" by linarith
  then have "b < 53" by (rule power_less_imp_less_exp [rotated]) simp
  then have b52: "b \<le> 52" by simp
  define x :: real where "x = of_int M * 2 powi j"
  have xpos: "0 < x" using assms(1) by (simp add: x_def)
  have rlo: "(2::real) ^ b \<le> of_int M" using lo by (metis of_int_le_iff of_int_numeral of_int_power)
  have rhi: "of_int M < (2::real) ^ (b + 1)"
    using hi by (metis of_int_less_iff of_int_numeral of_int_power)
  have "2 powi (int b + j) \<le> x"
    using rlo by (simp add: x_def power_int_add)
  moreover have "x < 2 powi (int b + j + 1)"
    using rhi by (simp add: x_def power_int_add)
  ultimately have e: "\<lfloor>log 2 x\<rfloor> = int b + j" using binade [OF xpos] by simp
  have "x / 2 powi (int b + j - 52) = of_int M * 2 powi (52 - int b)"
    by (simp add: x_def power_int_diff power_int_add field_simps)
  also have "\<dots> = of_int M * 2 ^ (52 - b)"
    using b52 by (simp add: power_int_def nat_diff_distrib)
  also have "\<dots> = of_int (M * 2 ^ (52 - b))" by simp
  finally have q: "x / 2 powi (int b + j - 52) = of_int (M * 2 ^ (52 - b))" .
  have "b64_round x = of_int (M * 2 ^ (52 - b)) * 2 powi (int b + j - 52)"
    by (simp only: b64_round_pos [OF xpos] e q round_half_even_of_int)
  also have "\<dots> = of_int M * (2 powi (52 - int b) * 2 powi (int b + j - 52))"
    using b52 by (simp add: power_int_def nat_diff_distrib)
  also have "\<dots> = of_int M * 2 powi j"
    by (simp add: power_int_add [symmetric])
  finally show ?thesis by (simp add: x_def)
qed

lemma floor_log2_mono:
  assumes "0 < x" "x \<le> y"
  shows "\<lfloor>log 2 x\<rfloor> \<le> \<lfloor>log 2 y\<rfloor>"
  using assms by (intro floor_mono log_mono) simp_all

lemma b64_round_le:
  assumes "0 < x" and "x \<le> y" and "b64_round y = y"
  shows "b64_round x \<le> y"
proof -
  define ex where "ex = \<lfloor>log 2 x\<rfloor>"
  define ey where "ey = \<lfloor>log 2 y\<rfloor>"
  have ypos: "0 < y" using assms by linarith
  have le: "ex \<le> ey" using floor_log2_mono [OF assms(1,2)] by (simp add: ex_def ey_def)
  have upos: "0 < (2::real) powi (ex - 52)" by simp
  have rx: "b64_round x = of_int (round_half_even (x / 2 powi (ex - 52))) * 2 powi (ex - 52)"
    using b64_round_pos [OF assms(1)] by (simp add: ex_def)
  show ?thesis
  proof (cases "ex = ey")
    case True
    have ry: "y = of_int (round_half_even (y / 2 powi (ex - 52))) * 2 powi (ex - 52)"
      using b64_round_pos [OF ypos] assms(3) True by (simp add: ey_def)
    have "x / 2 powi (ex - 52) \<le> y / 2 powi (ex - 52)"
      using assms(2) upos by (simp add: divide_right_mono)
    then have "round_half_even (x / 2 powi (ex - 52)) \<le> round_half_even (y / 2 powi (ex - 52))"
      by (rule round_half_even_mono)
    then have "of_int (round_half_even (x / 2 powi (ex - 52))) * 2 powi (ex - 52)
             \<le> of_int (round_half_even (y / 2 powi (ex - 52))) * (2::real) powi (ex - 52)"
      using upos by (simp add: mult_right_mono)
    with rx ry show ?thesis by simp
  next
    case False
    with le have lt: "ex + 1 \<le> ey" by simp
    have "x < 2 powi (ex + 1)" using binade_bounds(2) [OF assms(1)] by (simp add: ex_def)
    then have "x / 2 powi (ex - 52) \<le> 2 powi (ex + 1) / 2 powi (ex - 52)"
      using upos by (simp add: divide_right_mono)
    also have "(2::real) powi (ex + 1) / 2 powi (ex - 52) = of_int (2 ^ 53)"
      by (simp add: power_int_diff [symmetric])
    finally have "round_half_even (x / 2 powi (ex - 52)) \<le> round_half_even (of_int (2 ^ 53))"
      by (rule round_half_even_mono)
    then have "round_half_even (x / 2 powi (ex - 52)) \<le> 2 ^ 53"
      by (simp only: round_half_even_of_int)
    then have "of_int (round_half_even (x / 2 powi (ex - 52))) \<le> (2::real) ^ 53"
      by (metis of_int_le_iff of_int_numeral of_int_power)
    then have "b64_round x \<le> 2 ^ 53 * 2 powi (ex - 52)"
      using upos by (simp only: rx mult_right_mono)
    also have "\<dots> = 2 powi (ex + 1)"
      by (simp add: power_int_diff power_int_add)
    also have "\<dots> \<le> 2 powi ey" using lt by (simp add: power_int_increasing)
    also have "\<dots> \<le> y" using binade_bounds(1) [OF ypos] by (simp add: ey_def)
    finally show ?thesis .
  qed
qed

lemma b64_round_ge:
  assumes "0 < y" and "y \<le> x" and "b64_round y = y"
  shows "y \<le> b64_round x"
proof -
  define ex where "ex = \<lfloor>log 2 x\<rfloor>"
  define ey where "ey = \<lfloor>log 2 y\<rfloor>"
  have xpos: "0 < x" using assms by linarith
  have le: "ey \<le> ex" using floor_log2_mono [OF assms(1,2)] by (simp add: ex_def ey_def)
  have upos: "0 < (2::real) powi (ex - 52)" by simp
  have rx: "b64_round x = of_int (round_half_even (x / 2 powi (ex - 52))) * 2 powi (ex - 52)"
    using b64_round_pos [OF xpos] by (simp add: ex_def)
  show ?thesis
  proof (cases "ex = ey")
    case True
    have ry: "y = of_int (round_half_even (y / 2 powi (ex - 52))) * 2 powi (ex - 52)"
      using b64_round_pos [OF assms(1)] assms(3) True by (simp add: ey_def)
    have "y / 2 powi (ex - 52) \<le> x / 2 powi (ex - 52)"
      using assms(2) upos by (simp add: divide_right_mono)
    then have "round_half_even (y / 2 powi (ex - 52)) \<le> round_half_even (x / 2 powi (ex - 52))"
      by (rule round_half_even_mono)
    then have "of_int (round_half_even (y / 2 powi (ex - 52))) * 2 powi (ex - 52)
             \<le> of_int (round_half_even (x / 2 powi (ex - 52))) * (2::real) powi (ex - 52)"
      using upos by (simp add: mult_right_mono)
    with rx ry show ?thesis by simp
  next
    case False
    with le have lt: "ey + 1 \<le> ex" by simp
    have "2 powi ex \<le> x" using binade_bounds(1) [OF xpos] by (simp add: ex_def)
    then have "2 powi ex / 2 powi (ex - 52) \<le> x / 2 powi (ex - 52)"
      using upos by (simp add: divide_right_mono)
    moreover have "(2::real) powi ex / 2 powi (ex - 52) = of_int (2 ^ 52)"
      by (simp add: power_int_diff [symmetric])
    ultimately have "round_half_even (of_int (2 ^ 52)) \<le> round_half_even (x / 2 powi (ex - 52))"
      by (simp only: round_half_even_mono)
    then have "2 ^ 52 \<le> round_half_even (x / 2 powi (ex - 52))"
      by (simp only: round_half_even_of_int)
    then have "(2::real) ^ 52 \<le> of_int (round_half_even (x / 2 powi (ex - 52)))"
      by (metis of_int_le_iff of_int_numeral of_int_power)
    then have "2 ^ 52 * 2 powi (ex - 52) \<le> b64_round x"
      using upos by (simp only: rx mult_right_mono)
    moreover have "(2::real) ^ 52 * 2 powi (ex - 52) = 2 powi ex"
      by (simp add: power_int_diff)
    moreover have "(2::real) powi (ey + 1) \<le> 2 powi ex" using lt by (simp add: power_int_increasing)
    moreover have "y < 2 powi (ey + 1)" using binade_bounds(2) [OF assms(1)] by (simp add: ey_def)
    ultimately show ?thesis by linarith
  qed
qed

lemma representable_nat: "0 < k \<Longrightarrow> k < 2 ^ 53 \<Longrightarrow> b64_round (real k) = real k"
  using representable [of "int k" 0] by simp

lemma representable_power: "b64_round (2 ^ k) = 2 ^ k"
  using representable [of 1 "int k"] by simp

lemma b64_round_0: "b64_round 0 = 0"
  by (simp add: b64_round_def)

lemma np_log2_power: "k < 2 ^ 53 \<Longrightarrow> np_log2 (2 ^ k) = real k"
proof (cases "k = 0")
  case True
  then show ?thesis using representable_power [of 0] by (simp add: np_log2_def b64_round_0)
next
  case False
  assume "k < 2 ^ 53"
  with False have "b64_round (real k) = real k" by (simp add: representable_nat)
  then show ?thesis by (simp add: np_log2_def representable_power)
qed

lemma np_log2_le:
  assumes "1 \<le> n" and "n \<le> 2 ^ k" and "k < 2 ^ 53"
  shows "np_log2 n \<le> real k"
proof -
  define xn where "xn = b64_round (of_int n)"
  have npos: "(0::real) < of_int n" using assms(1) by simp
  have "of_int n \<le> (2::real) ^ k" using assms(2) by (metis of_int_le_iff of_int_numeral of_int_power)
  then have up: "xn \<le> 2 ^ k"
    unfolding xn_def by (rule b64_round_le [OF npos _ representable_power])
  have "(1::real) \<le> of_int n" using assms(1) by simp
  then have lo: "1 \<le> xn"
    unfolding xn_def using representable_power [of 0] by (intro b64_round_ge) simp_all
  have l0: "0 \<le> log 2 xn" using lo by simp
  have lk: "log 2 xn \<le> real k" using lo up by (simp add: log_le_iff powr_realpow)
  show ?thesis
  proof (cases "log 2 xn = 0")
    case True
    then show ?thesis by (simp add: np_log2_def xn_def [symmetric] b64_round_0)
  next
    case False
    with l0 have pos: "0 < log 2 xn" by simp
    with lk have "0 < k" by (cases k) simp_all
    then have "b64_round (real k) = real k" using assms(3) by (simp add: representable_nat)
    from b64_round_le [OF pos lk this] show ?thesis by (simp add: np_log2_def xn_def)
  qed
qed

lemma log2_one_plus_inverse:
  fixes m :: nat
  assumes "0 < m"
  shows "1 / real m \<le> log 2 (1 + 1 / real m)"
proof -
  have "1 + real m * (1 / real m) \<le> (1 + 1 / real m) ^ m"
  proof (rule Bernoulli_inequality)
    have "(0::real) \<le> 1 / real m" by simp
    then show "- 1 \<le> 1 / real m" by linarith
  qed
  then have "2 \<le> (1 + 1 / real m) ^ m" using assms by simp
  then have "log 2 2 \<le> log 2 ((1 + 1 / real m) ^ m)" by (intro log_mono) simp_all
  then have "1 \<le> real m * log 2 (1 + 1 / real m)" by (simp add: log_nat_power)
  then show ?thesis using assms by (simp add: field_simps)
qed

lemma np_log2_gt:
  assumes "2 \<le> n" and "n \<le> 2 ^ 48" and "2 ^ j < n"
  shows "real j < np_log2 n"
proof -
  have n53: "n < 2 ^ 53" using assms(2) by simp
  have npos: "0 < n" using assms(1) by simp
  have rn: "b64_round (of_int n) = of_int n"
    using representable [OF npos n53, of 0] by simp
  have n2: "(2::real) \<le> of_int n" using assms(1) by simp
  have "(2::int) ^ j < 2 ^ 48" using assms(2,3) by linarith
  then have j48: "j < 48" by (rule power_less_imp_less_exp [rotated]) simp
  show ?thesis
  proof (cases "j = 0")
    case True
    have "log 2 2 \<le> log 2 (of_int n)" using n2 by (intro log_mono) simp_all
    then have "1 \<le> log 2 (of_int n)" by simp
    then have "1 \<le> b64_round (log 2 (of_int n))"
      using representable_power [of 0] by (intro b64_round_ge) simp_all
    with True show ?thesis by (simp add: np_log2_def rn)
  next
    case False
    define y :: real where "y = of_int (int j * 2 ^ 47 + 1) * 2 powi (- 47)"
    have "int j * 2 ^ 47 + 1 \<le> 47 * 2 ^ 47 + 1" using j48 by simp
    then have "int j * 2 ^ 47 + 1 < 2 ^ 53" by simp
    moreover have "0 < int j * 2 ^ 47 + 1" by simp
    ultimately have ry: "b64_round y = y" unfolding y_def by (rule representable [rotated])
    have yv: "y = real j + 2 powi (- 47)"
      by (simp add: y_def power_int_minus field_simps)
    have ypos: "0 < y" by (simp add: yv add_nonneg_pos)
    have "2 ^ j + 1 \<le> n" using assms(3) by simp
    then have "(of_int (2 ^ j + 1) :: real) \<le> of_int n" by (simp only: of_int_le_iff)
    then have "(2::real) ^ j + 1 \<le> of_int n" by simp
    then have "log 2 (2 ^ j + 1) \<le> log 2 (of_int n)"
      by (intro log_mono) (simp_all add: add_pos_pos)
    moreover have "log 2 (2 ^ j + 1) = real j + log 2 (1 + 1 / real (2 ^ j))"
    proof -
      have p: "(0::real) < 1 + 1 / real (2 ^ j)" by (simp add: add_pos_nonneg)
      have "(2::real) ^ j + 1 = 2 ^ j * (1 + 1 / real (2 ^ j))" by (simp add: field_simps)
      then have "log 2 (2 ^ j + 1) = log 2 (2 ^ j * (1 + 1 / real (2 ^ j)))" by simp
      also have "\<dots> = log 2 (2 ^ j) + log 2 (1 + 1 / real (2 ^ j))"
        using p by (intro log_mult_pos) simp_all
      finally show ?thesis by simp
    qed
    moreover have "1 / real (2 ^ j) \<le> log 2 (1 + 1 / real (2 ^ j))"
      by (rule log2_one_plus_inverse) simp
    moreover have "(2::real) powi (- 47) \<le> 1 / real (2 ^ j)"
    proof -
      have "(2::real) ^ j \<le> 2 ^ 47" using j48 by (intro power_increasing) simp_all
      then show ?thesis by (simp add: power_int_minus field_simps)
    qed
    ultimately have "y \<le> log 2 (of_int n)" unfolding yv by linarith
    from b64_round_ge [OF ypos this ry] have "y \<le> np_log2 n" by (simp add: np_log2_def rn)
    moreover have "real j < y" by (simp add: yv)
    ultimately show ?thesis by linarith
  qed
qed

subsection \<open>Padded time-step count\<close>

lemma pow2_between_unique:
  fixes n :: int
  assumes "n \<le> 2 ^ j" "(2::int) ^ j < 2 * n" "n \<le> 2 ^ k" "(2::int) ^ k < 2 * n"
  shows "j = k"
proof (rule ccontr)
  assume "j \<noteq> k"
  then consider "j < k" | "k < j" by linarith
  then show False
  proof cases
    case 1
    then have "(2::int) ^ Suc j \<le> 2 ^ k" by (intro power_increasing) auto
    with assms show False by simp
  next
    case 2
    then have "(2::int) ^ Suc k \<le> 2 ^ j" by (intro power_increasing) auto
    with assms show False by simp
  qed
qed

lemma ceillog2_int_bounds:
  assumes "1 \<le> n"
  shows "n \<le> 2 ^ ceillog2 (nat n)" and "(2::int) ^ ceillog2 (nat n) < 2 * n"
proof -
  have pos: "0 < nat n" and nat_n: "int (nat n) = n" using assms by simp_all
  have "nat n \<le> 2 ^ ceillog2 (nat n)" "2 ^ ceillog2 (nat n) < 2 * nat n"
    using pos by (simp_all add: le_two_power_ceillog2 two_power_ceillog2_gt)
  then have "int (nat n) \<le> int (2 ^ ceillog2 (nat n))"
      "int (2 ^ ceillog2 (nat n)) < int (2 * nat n)"
    by (simp_all only: of_nat_le_iff of_nat_less_iff)
  then show "n \<le> 2 ^ ceillog2 (nat n)" "(2::int) ^ ceillog2 (nat n) < 2 * n"
    using nat_n by simp_all
qed

lemma ceillog2_int_le:
  assumes "1 \<le> n" and "n \<le> 2 ^ b"
  shows "ceillog2 (nat n) \<le> b"
proof -
  have "int (nat n) \<le> int (2 ^ b)" using assms by simp
  then have "nat n \<le> 2 ^ b" by (simp only: of_nat_le_iff)
  with assms(1) show ?thesis by (simp add: ceillog2_le_iff)
qed

lemma ceiling_np_log2_le:
  assumes "1 \<le> n" and "n \<le> 2 ^ 64"
  shows "nat \<lceil>np_log2 n\<rceil> \<le> ceillog2 (nat n)"
proof -
  have k64: "ceillog2 (nat n) \<le> 64" using assms by (rule ceillog2_int_le)
  then have "ceillog2 (nat n) < 2 ^ 53" by simp
  from np_log2_le [OF assms(1) ceillog2_int_bounds(1) [OF assms(1)] this]
  have "np_log2 n \<le> of_int (int (ceillog2 (nat n)))" by simp
  then have "\<lceil>np_log2 n\<rceil> \<le> int (ceillog2 (nat n))" by (simp only: ceiling_le_iff)
  then show ?thesis by (simp only: nat_le_iff)
qed

lemma tsteps_of_exact:
  assumes "1 \<le> n" and "n \<le> 2 ^ 48"
  shows "tsteps_of n = Inr (2 ^ ceillog2 (nat n))"
proof -
  define k where "k = ceillog2 (nat n)"
  have k48: "k \<le> 48" unfolding k_def using assms by (rule ceillog2_int_le)
  have up: "n \<le> 2 ^ k" and lo: "(2::int) ^ k < 2 * n"
    using ceillog2_int_bounds [OF assms(1)] by (simp_all add: k_def)
  have le: "np_log2 n \<le> real k" using k48 by (intro np_log2_le [OF assms(1) up]) simp
  have "\<lceil>np_log2 n\<rceil> = int k"
  proof (cases "n = 1")
    case True
    with up lo have "k = 0" by (cases k) simp_all
    moreover have "np_log2 1 = 0" using np_log2_power [of 0] by simp
    ultimately show ?thesis using True by simp
  next
    case False
    with assms(1) have n2: "2 \<le> n" by simp
    with up have "k \<noteq> 0" by (cases k) simp_all
    then obtain j where j: "k = Suc j" by (cases k) simp_all
    with lo have "2 ^ j < n" by simp
    from np_log2_gt [OF n2 assms(2) this] have "real j < np_log2 n" .
    with le j show ?thesis by (intro ceiling_unique) simp_all
  qed
  moreover have "n < 2 ^ 64" using assms(2) by simp
  ultimately show ?thesis using assms(1) by (simp add: tsteps_of_def k_def)
qed

lemma tsteps_of_result:
  assumes "tsteps_of n = Inr t"
  shows "1 \<le> n" and "n < 2 ^ 64" and "t = 2 ^ nat \<lceil>np_log2 n\<rceil>" and "t < 2 * n"
proof -
  show n1: "1 \<le> n" and n64: "n < 2 ^ 64" and t: "t = 2 ^ nat \<lceil>np_log2 n\<rceil>"
    using assms by (auto simp: tsteps_of_def split: if_splits)
  have "n \<le> 2 ^ 64" using n64 by simp
  from ceiling_np_log2_le [OF n1 this]
  have "(2::int) ^ nat \<lceil>np_log2 n\<rceil> \<le> 2 ^ ceillog2 (nat n)"
    by (intro power_increasing) simp_all
  with ceillog2_int_bounds(2) [OF n1] t show "t < 2 * n" by linarith
qed

lemma dia_num_of_power:
  assumes "k < 64"
  shows "dia_num_of (2 ^ k) = Inr k"
proof -
  have hi: "(2::int) ^ k < 2 ^ 64" using assms by (intro power_strict_increasing) simp_all
  have pos: "(0::int) \<le> 2 ^ k" by simp
  have neg: "- (2 ^ 63) \<le> (0::int)" by simp
  have lo: "\<not> (2::int) ^ k < - (2 ^ 63)"
    using order_trans [OF neg pos] by (simp only: not_less)
  have v: "np_log2 (2 ^ k) = real k" using assms by (intro np_log2_power) simp
  have "dia_num_of (2 ^ k) = Inr (nat \<lfloor>np_log2 (2 ^ k)\<rfloor>)"
    unfolding dia_num_of_def using hi lo by (simp del: power_strict_increasing_iff)
  then show ?thesis by (simp add: v)
qed

lemma ln2_gt_half: "1 / 2 < ln (2::real)"
proof -
  have "exp (1 / 2) * exp (1 / 2) = exp (1::real)" by (simp add: exp_add [symmetric])
  then have "exp (1 / 2) * exp (1 / 2) < (2::real) * 2" using exp_le by simp
  then have "exp (1 / 2) < (2::real)"
    by (metis exp_gt_zero less_le_not_le mult_mono not_le_imp_less zero_le_numeral)
  then have "exp (1 / 2) < exp (ln (2::real))" by simp
  then show ?thesis by (simp only: exp_less_cancel_iff)
qed

lemma log2_one_plus_less:
  assumes "0 < y"
  shows "log 2 (1 + y) < 2 * y"
proof -
  have "ln (1 + y) \<le> y" using assms by (intro ln_add_one_self_le_self) simp
  moreover have "0 < ln (2::real)" by simp
  ultimately have "ln (1 + y) / ln 2 \<le> y / ln 2" by (simp add: divide_right_mono)
  moreover have "y / ln 2 < y / (1 / 2)"
    using assms ln2_gt_half by (intro divide_strict_left_mono) simp_all
  ultimately show ?thesis by (simp add: log_def)
qed

lemma round_half_even_down:
  assumes "of_int M \<le> y" and "y < of_int M + 1 / 2"
  shows "round_half_even y = M"
proof -
  have "\<lfloor>y\<rfloor> = M" using assms by (intro floor_unique) simp_all
  moreover have "y - of_int M < 1 / 2" using assms(2) by linarith
  ultimately show ?thesis by (simp add: round_half_even_def)
qed

lemma b64_round_down:
  assumes "0 < x" and "\<lfloor>log 2 x\<rfloor> = e"
    and "of_int M \<le> x / 2 powi (e - 52)" and "x / 2 powi (e - 52) < of_int M + 1 / 2"
  shows "b64_round x = of_int M * 2 powi (e - 52)"
  using b64_round_pos [OF assms(1)] assms(2) round_half_even_down [OF assms(3,4)] by simp

lemma log2_above_2_49:
  "49 < log 2 (2 ^ 49 + 1)" "log 2 (2 ^ 49 + 1) < 49 + 2 / 2 ^ 49"
proof -
  have p: "(0::real) < 1 + 1 / 2 ^ 49" by simp
  have "(2::real) ^ 49 + 1 = 2 ^ 49 * (1 + 1 / 2 ^ 49)" by (simp add: field_simps)
  then have "log 2 (2 ^ 49 + 1) = log 2 (2 ^ 49 * (1 + 1 / 2 ^ 49))" by simp
  also have "\<dots> = log 2 (2 ^ 49) + log 2 (1 + 1 / 2 ^ 49)"
    using p by (intro log_mult_pos) simp_all
  also have "log 2 ((2::real) ^ 49) = 49" using log_nat_power [of 2 2 49] by simp
  finally have eq: "log 2 (2 ^ 49 + 1) = 49 + log 2 (1 + 1 / 2 ^ 49)" .
  have "log 2 1 < log 2 (1 + 1 / 2 ^ 49)" by (subst log_less_cancel_iff) simp_all
  then have "0 < log 2 (1 + 1 / 2 ^ 49)" by simp
  with eq show "49 < log 2 (2 ^ 49 + 1)" by linarith
  have "log 2 (1 + 1 / 2 ^ 49) < 2 * (1 / 2 ^ 49)" by (rule log2_one_plus_less) simp
  with eq show "log 2 (2 ^ 49 + 1) < 49 + 2 / 2 ^ 49" by simp
qed

lemma np_log2_above_2_49: "np_log2 (2 ^ 49 + 1) = 49"
proof -
  define x :: real where "x = log 2 (2 ^ 49 + 1)"
  have lo: "49 < x" and hi: "x < 49 + 2 / 2 ^ 49" using log2_above_2_49 by (simp_all add: x_def)
  have xpos: "0 < x" using lo by linarith
  have rn: "b64_round (of_int (2 ^ 49 + 1)) = of_int (2 ^ 49 + 1)"
    using representable [of "2 ^ 49 + 1" 0] by simp
  have "2 powi 5 \<le> x" using lo by simp
  moreover have "x < 2 powi (5 + 1)" using hi by simp
  ultimately have e: "\<lfloor>log 2 x\<rfloor> = 5" using binade [OF xpos, of 5] by simp
  have q: "x / 2 powi (5 - 52) = x * 2 ^ 47" by (simp add: power_int_minus field_simps)
  have a: "of_int (49 * 2 ^ 47) \<le> x / 2 powi (5 - 52)" using lo by (simp add: q)
  have b: "x / 2 powi (5 - 52) < of_int (49 * 2 ^ 47) + 1 / 2" using hi by (simp add: q)
  have "b64_round x = of_int (49 * 2 ^ 47) * 2 powi (5 - 52)"
    by (rule b64_round_down [OF xpos e a b])
  also have "\<dots> = 49" by (simp add: power_int_minus)
  finally have "b64_round x = 49" .
  then show ?thesis using rn by (simp add: np_log2_def x_def)
qed

lemma tsteps_of_above_2_49: "tsteps_of (2 ^ 49 + 1) = Inr (2 ^ 49)"
  using np_log2_above_2_49 by (simp add: tsteps_of_def)

text \<open>
  C1 as stated fails above the range where the binary64 logarithm separates an integer
  from the power of two below it: for \<open>2 ^ 49 + 1\<close> integrations \<open>np.log2\<close> returns
  \<open>49.0\<close> and the padded count is \<open>2 ^ 49\<close>, less than the number of integrations.
\<close>

theorem tsteps_rounds_down_counterexample:
  "tsteps_of (2 ^ 49 + 1) = Inr (2 ^ 49) \<and> (2::int) ^ 49 < 2 ^ 49 + 1"
  using tsteps_of_above_2_49 by simp

text \<open>
  C1, amended. For every integration count \<open>n\<close> from \<open>1\<close> to \<open>2 ^ 48\<close> the padded
  time-step count is a power of two \<open>2 ^ k\<close> with \<open>n \<le> 2 ^ k\<close> and \<open>2 ^ k / 2 < n\<close> (stated
  both as \<open>2 ^ k < 2 * n\<close> and with integer division); it is the smallest power of two
  that is at least \<open>n\<close>, and the only one in that window.
\<close>

theorem tsteps_smallest_power_of_two:
  assumes "1 \<le> n" and "n \<le> 2 ^ 48"
  shows "\<exists>k. tsteps_of n = Inr (2 ^ k) \<and> n \<le> 2 ^ k \<and> (2::int) ^ k < 2 * n
           \<and> (2 ^ k) div 2 < n
           \<and> (\<forall>j. n \<le> 2 ^ j \<longrightarrow> (2::int) ^ k \<le> 2 ^ j)
           \<and> (\<forall>j. n \<le> 2 ^ j \<and> (2::int) ^ j < 2 * n \<longrightarrow> j = k)"
proof -
  define k where "k = ceillog2 (nat n)"
  have res: "tsteps_of n = Inr (2 ^ k)"
    using tsteps_of_exact [OF assms] by (simp add: k_def)
  have up: "n \<le> 2 ^ k" and lo: "(2::int) ^ k < 2 * n"
    using ceillog2_int_bounds [OF assms(1)] by (simp_all add: k_def)
  have half: "((2::int) ^ k) div 2 < n" using lo by linarith
  have least: "(2::int) ^ k \<le> 2 ^ j" if "n \<le> 2 ^ j" for j
  proof (rule ccontr)
    assume "\<not> (2::int) ^ k \<le> 2 ^ j"
    then have "j < k" by (simp add: not_le)
    then have "(2::int) ^ Suc j \<le> 2 ^ k" by (intro power_increasing) auto
    with that lo show False by simp
  qed
  have uniq: "j = k" if "n \<le> 2 ^ j \<and> (2::int) ^ j < 2 * n" for j
    using that up lo pow2_between_unique by blast
  from res up lo half least uniq show ?thesis by blast
qed

text \<open>The two instances the specification names: one integration, and 2000 of them.\<close>

theorem tsteps_smallest_power_of_two_witness:
  "(1::int) \<le> 1 \<and> tsteps_of 1 = Inr 1 \<and> (1::int) \<le> 2000 \<and> (2000::int) \<le> 2 ^ 48
   \<and> tsteps_of 2000 = Inr 2048"
proof -
  have r: "(1::int) \<le> 2000" "(2000::int) \<le> 2 ^ 48" "(1::int) \<le> 1" "(1::int) \<le> 2 ^ 48"
    by simp_all
  obtain k where k: "tsteps_of 2000 = Inr (2 ^ k)"
      "\<forall>j. (2000::int) \<le> 2 ^ j \<and> (2::int) ^ j < 2 * 2000 \<longrightarrow> j = k"
    using tsteps_smallest_power_of_two [OF r(1,2)] by auto
  have "(2000::int) \<le> 2 ^ 11 \<and> (2::int) ^ 11 < 2 * 2000" by simp
  with k(2) have "k = 11" by metis
  with k(1) have a: "tsteps_of 2000 = Inr 2048" by simp
  obtain i where i: "tsteps_of 1 = Inr (2 ^ i)"
      "\<forall>j. (1::int) \<le> 2 ^ j \<and> (2::int) ^ j < 2 * 1 \<longrightarrow> j = i"
    using tsteps_smallest_power_of_two [OF r(3,4)] by auto
  have "(1::int) \<le> 2 ^ 0 \<and> (2::int) ^ 0 < 2 * 1" by simp
  with i(2) have "i = 0" by metis
  with i(1) have b: "tsteps_of 1 = Inr 1" by simp
  from a b show ?thesis by simp
qed

subsection \<open>Drift-index row\<close>

lemma half_of_power: "half_of (2 ^ j) = 2 ^ j div 2"
proof (cases j)
  case 0
  have "b64_round (of_int 1 * 2 powi (- 1)) = of_int 1 * 2 powi (- 1)"
    by (rule representable) simp_all
  moreover have "of_int 1 * 2 powi (- 1) = (1 / 2 :: real)"
    by (simp add: power_int_minus inverse_eq_divide)
  ultimately have h: "b64_round (1 / 2) = 1 / 2" by (simp only:)
  have "half_of (2 ^ 0) = \<lfloor>b64_round (1 / 2)\<rfloor>" by (simp add: half_of_def)
  also have "\<dots> = 0" by (simp only: h) simp
  finally show ?thesis using 0 by simp
next
  case (Suc i)
  then have "(of_int (2 ^ j) :: real) / 2 = 2 ^ i" by simp
  then have "b64_round (of_int (2 ^ j) / 2) = 2 ^ i" by (simp only: representable_power)
  moreover have "\<lfloor>(2::real) ^ i\<rfloor> = 2 ^ i" by (metis floor_of_int of_int_numeral of_int_power)
  ultimately have "half_of (2 ^ j) = 2 ^ i" by (simp add: half_of_def)
  with Suc show ?thesis by simp
qed

lemma valid_pair_offset:
  assumes "tsteps_of n = Inr t"
  shows "1 \<le> n" and "0 \<le> n - 1 - t div 2" and "half_of t = t div 2"
proof -
  show "1 \<le> n" by (rule tsteps_of_result(1) [OF assms])
  have "t < 2 * n" by (rule tsteps_of_result(4) [OF assms])
  then show "0 \<le> n - 1 - t div 2" by linarith
  show "half_of t = t div 2"
    using tsteps_of_result(3) [OF assms] half_of_power by simp
qed

lemma load_drift_indexes_table:
  assumes "dia_num_of (tsteps dd) = Inr k" and "res k = Some di_array"
  shows "load_drift_indexes res dd =
           index_row di_array (tsteps_valid dd - 1 - half_of (tsteps dd)) (tsteps_valid dd)"
  using assms by (simp add: load_drift_indexes_def)

lemma dia_num_of_8: "dia_num_of 8 = Inr 3"
  using dia_num_of_power [of 3] by simp

lemma dia_num_of_4096: "dia_num_of 4096 = Inr 12"
  using dia_num_of_power [of 12] by simp

lemma half_of_8: "half_of 8 = 4"
  using half_of_power [of 3] by simp

lemma tsteps_of_6: "tsteps_of 6 = Inr 8"
proof -
  have "ceillog2 6 = 3" by (rule ceillog2_eqI) simp_all
  then show ?thesis using tsteps_of_exact [of 6] by simp
qed

lemma tsteps_of_8: "tsteps_of 8 = Inr 8"
proof -
  have "ceillog2 8 = 3" by (rule ceillog2_eqI) simp_all
  then show ?thesis using tsteps_of_exact [of 8] by simp
qed

lemma tsteps_of_16: "tsteps_of 16 = Inr 16"
proof -
  have "ceillog2 16 = 4" by (rule ceillog2_eqI) simp_all
  then show ?thesis using tsteps_of_exact [of 16] by simp
qed

lemma tsteps_of_4000: "tsteps_of 4000 = Inr 4096"
proof -
  have "ceillog2 4000 = 12" by (rule ceillog2_eqI) simp_all
  then show ?thesis using tsteps_of_exact [of 4000] by simp
qed

lemma sample_resources_3: "sample_resources 3 = Some (Array2 sample_table)"
  by (simp add: sample_resources_def)

text \<open>
  C2. Let \<open>(tsteps, tsteps_valid)\<close> be a pair the geometry can hold, that is, \<open>tsteps\<close>
  is the padded count of \<open>tsteps_valid\<close>, and let the table for \<open>k = log2 tsteps\<close> be a
  two-dimensional array that has the row \<open>tsteps_valid - 1 - tsteps div 2\<close> and at least
  \<open>tsteps_valid\<close> columns. Then the offset is not negative, the resolution returns the
  first \<open>tsteps_valid\<close> entries of exactly that row, and the vector has length
  \<open>tsteps_valid\<close>. The result is a function of the geometry and the table alone.
\<close>

theorem drift_index_row_selected:
  assumes "tsteps_of (tsteps_valid dd) = Inr (tsteps dd)"
    and "dia_num_of (tsteps dd) = Inr k"
    and "res k = Some (Array2 rows)"
    and "tsteps_valid dd - 1 - tsteps dd div 2 < int (length rows)"
    and "\<forall>row \<in> set rows. tsteps_valid dd \<le> int (length row)"
  shows "0 \<le> tsteps_valid dd - 1 - tsteps dd div 2
       \<and> load_drift_indexes res dd =
           Inr (take (nat (tsteps_valid dd)) (rows ! nat (tsteps_valid dd - 1 - tsteps dd div 2)))
       \<and> int (length (take (nat (tsteps_valid dd))
                        (rows ! nat (tsteps_valid dd - 1 - tsteps dd div 2)))) = tsteps_valid dd"
proof -
  define i where "i = tsteps_valid dd - 1 - tsteps dd div 2"
  have n: "1 \<le> tsteps_valid dd" and i0: "0 \<le> i"
    and h: "half_of (tsteps dd) = tsteps dd div 2"
    using valid_pair_offset [OF assms(1)] by (simp_all add: i_def)
  have ir: "i < int (length rows)" using assms(4) by (simp add: i_def)
  have "load_drift_indexes res dd = index_row (Array2 rows) i (tsteps_valid dd)"
    using load_drift_indexes_table [of dd k res, OF assms(2,3)] by (simp add: i_def h)
  also have "\<dots> = Inr (take (nat (tsteps_valid dd)) (rows ! nat i))"
    using i0 ir n by (simp add: index_row_def slice_to_def)
  finally have sel:
    "load_drift_indexes res dd = Inr (take (nat (tsteps_valid dd)) (rows ! nat i))" .
  have "rows ! nat i \<in> set rows" using i0 ir by simp
  then have "tsteps_valid dd \<le> int (length (rows ! nat i))" using assms(5) by blast
  then have len: "int (length (take (nat (tsteps_valid dd)) (rows ! nat i))) = tsteps_valid dd"
    using n by simp
  from i0 sel len show ?thesis unfolding i_def by blast
qed

text \<open>Six integrations, eight padded steps: row \<open>6 - 1 - 4 = 1\<close>, cut to six entries.\<close>

theorem drift_index_row_selected_witness:
  "tsteps_of (tsteps_valid (sample_geometry 8 6)) = Inr (tsteps (sample_geometry 8 6))
   \<and> load_drift_indexes sample_resources (sample_geometry 8 6) = Inr [0, 0, 0, 1, 1, 1]"
proof -
  have a: "tsteps_of (tsteps_valid (sample_geometry 8 6)) = Inr (tsteps (sample_geometry 8 6))"
    by (simp add: sample_geometry_def tsteps_of_6)
  have b: "dia_num_of (tsteps (sample_geometry 8 6)) = Inr 3"
    by (simp add: sample_geometry_def dia_num_of_8)
  have d: "tsteps_valid (sample_geometry 8 6) - 1 - tsteps (sample_geometry 8 6) div 2
            < int (length sample_table)"
    by (simp add: sample_geometry_def sample_table_def)
  have e: "\<forall>row \<in> set sample_table. tsteps_valid (sample_geometry 8 6) \<le> int (length row)"
    by (simp add: sample_geometry_def sample_table_def)
  show ?thesis
    using drift_index_row_selected [of "sample_geometry 8 6" 3 sample_resources,
        OF a b sample_resources_3 d e] a
    by (simp add: sample_geometry_def sample_table_def)
qed

text \<open>
  C7. When the resources hold no table for \<open>k = log2 tsteps\<close>, the resolution raises the
  AssertionError of line 277 (the specification's MissingIndexTableError): no row of any
  other table is read and no vector is returned. So does the constructor, for every
  input whose geometry needs that table.
\<close>

theorem missing_table_fails:
  assumes "dia_num_of (tsteps dd) = Inr k" and "res k = None"
  shows "load_drift_indexes res dd = Inl AssertionError
       \<and> (derive_geometry s nf n cc nc = Inr dd \<longrightarrow>
            (DopplerFinder_init res f s nf n cc nc od fl ap bdc :: error + 'a DopplerFinder)
              = Inl AssertionError)"
  using assms by (simp add: load_drift_indexes_def DopplerFinder_init_def)

text \<open>4000 integrations need the table for \<open>k = 12\<close>; the sample resources stop at \<open>3\<close>.\<close>

theorem missing_table_fails_witness:
  "dia_num_of (tsteps (sample_geometry 4096 4000)) = Inr 12 \<and> sample_resources 12 = None
   \<and> load_drift_indexes sample_resources (sample_geometry 4096 4000) = Inl AssertionError
   \<and> (DopplerFinder_init sample_resources ''/data/obs.h5'' ''src'' 8 4000 0 1 ''./out/''
         False True True :: error + real DopplerFinder) = Inl AssertionError"
proof -
  have a: "dia_num_of (tsteps (sample_geometry 4096 4000)) = Inr 12"
    by (simp add: sample_geometry_def dia_num_of_4096)
  have b: "sample_resources 12 = None" by (simp add: sample_resources_def)
  have g: "derive_geometry ''src'' 8 4000 0 1 = Inr (sample_geometry 4096 4000)"
    by (simp add: derive_geometry_def tsteps_of_4000 sample_geometry_def)
  show ?thesis
    using missing_table_fails [of "sample_geometry 4096 4000" 12 sample_resources
        "''src''" 8 4000 0 1 "''/data/obs.h5''" "''./out/''" False True True,
        where ?'a = real, OF a b] a b g
    by simp
qed

text \<open>
  C6. The geometry the constructor holds has \<open>tsteps\<close> derived from \<open>tsteps_valid\<close> at
  line 215, so the row offset \<open>tsteps_valid - 1 - tsteps div 2\<close> is never negative.
  Whenever the offset is negative or reaches the row count of the loaded table, the
  resolution raises IndexError (the specification's IndexRangeError) and returns no
  vector; the constructor fails with the same error.
\<close>

theorem row_offset_out_of_range:
  assumes "tsteps_of (tsteps_valid dd) = Inr (tsteps dd)"
    and "dia_num_of (tsteps dd) = Inr k"
    and "res k = Some (Array2 rows)"
    and "tsteps_valid dd - 1 - tsteps dd div 2 < 0
         \<or> int (length rows) \<le> tsteps_valid dd - 1 - tsteps dd div 2"
  shows "load_drift_indexes res dd = Inl IndexError
       \<and> 0 \<le> tsteps_valid dd - 1 - tsteps dd div 2
       \<and> (derive_geometry s nf n cc nc = Inr dd \<longrightarrow>
            (DopplerFinder_init res f s nf n cc nc od fl ap bdc :: error + 'a DopplerFinder)
              = Inl IndexError)"
proof -
  define i where "i = tsteps_valid dd - 1 - tsteps dd div 2"
  have i0: "0 \<le> i" and h: "half_of (tsteps dd) = tsteps dd div 2"
    using valid_pair_offset [OF assms(1)] by (simp_all add: i_def)
  with assms(4) have big: "int (length rows) \<le> i" by (simp add: i_def)
  have "load_drift_indexes res dd = index_row (Array2 rows) i (tsteps_valid dd)"
    using load_drift_indexes_table [of dd k res, OF assms(2,3)] by (simp add: i_def h)
  also have "\<dots> = Inl IndexError" using big by (simp add: index_row_def)
  finally have fail: "load_drift_indexes res dd = Inl IndexError" .
  then have ctor: "(DopplerFinder_init res f s nf n cc nc od fl ap bdc :: error + 'a DopplerFinder)
                     = Inl IndexError"
    if "derive_geometry s nf n cc nc = Inr dd"
    using that by (simp add: DopplerFinder_init_def)
  from fail i0 ctor show ?thesis unfolding i_def by blast
qed

text \<open>
  Eight integrations against a table for \<open>k = 3\<close> that has two rows only: offset \<open>3\<close>,
  IndexError from the resolution and from the constructor.
\<close>

theorem row_offset_out_of_range_witness:
  "tsteps_of (tsteps_valid (sample_geometry 8 8)) = Inr (tsteps (sample_geometry 8 8))
   \<and> int (length (take 2 sample_table))
        \<le> tsteps_valid (sample_geometry 8 8) - 1 - tsteps (sample_geometry 8 8) div 2
   \<and> load_drift_indexes short_resources (sample_geometry 8 8) = Inl IndexError
   \<and> (DopplerFinder_init short_resources ''/data/obs.h5'' ''src'' 8 8 0 1 ''./out/''
         False True True :: error + real DopplerFinder) = Inl IndexError"
proof -
  have v: "tsteps_of (tsteps_valid (sample_geometry 8 8)) = Inr (tsteps (sample_geometry 8 8))"
    by (simp add: sample_geometry_def tsteps_of_8)
  have a: "dia_num_of (tsteps (sample_geometry 8 8)) = Inr 3"
    by (simp add: sample_geometry_def dia_num_of_8)
  have b: "short_resources 3 = Some (Array2 (take 2 sample_table))"
    by (simp add: short_resources_def)
  have c: "int (length (take 2 sample_table))
        \<le> tsteps_valid (sample_geometry 8 8) - 1 - tsteps (sample_geometry 8 8) div 2"
    by (simp add: sample_geometry_def sample_table_def)
  then have c': "tsteps_valid (sample_geometry 8 8) - 1 - tsteps (sample_geometry 8 8) div 2 < 0
         \<or> int (length (take 2 sample_table))
            \<le> tsteps_valid (sample_geometry 8 8) - 1 - tsteps (sample_geometry 8 8) div 2"
    by (rule disjI2)
  have g: "derive_geometry ''src'' 8 8 0 1 = Inr (sample_geometry 8 8)"
    by (simp add: derive_geometry_def tsteps_of_8 sample_geometry_def)
  show ?thesis
    using row_offset_out_of_range [of "sample_geometry 8 8" 3 short_resources
        "take 2 sample_table" "''src''" 8 8 0 1 "''/data/obs.h5''" "''./out/''" False True True,
        where ?'a = real, OF v a b c'] v c g
    by simp
qed

subsection \<open>Search geometry\<close>

lemma tsteps_of_in_range:
  assumes "1 \<le> n" and "n < 2 ^ 64"
  shows "tsteps_of n = Inr (2 ^ nat \<lceil>np_log2 n\<rceil>)"
  using assms by (simp add: tsteps_of_def)

lemma derive_geometry_ok:
  assumes "1 \<le> n" and "n < 2 ^ 64" and "nf \<noteq> 0" and "\<bar>nf\<bar> < 2 ^ 1024 - 2 ^ 970"
    and "nc \<noteq> 0"
  shows "derive_geometry s nf n cc nc =
           Inr \<lparr>tsteps_valid = n, tsteps = 2 ^ nat \<lceil>np_log2 n\<rceil>, tdwidth = nf,
                fftlen = nf div nc, shoulder_size = 0, coarse_chan = cc,
                header = \<lparr>h_coarse_chan = 0, NAXIS1 = nf, baryv = 0, SOURCE = s\<rparr>\<rparr>"
proof -
  have "\<not> 2 ^ 1024 - 2 ^ 970 \<le> \<bar>nf\<bar>" using assms(4) by (simp only: not_le)
  then show ?thesis
    unfolding derive_geometry_def Let_def tsteps_of_in_range [OF assms(1,2)]
    using assms(3,5) by (simp del: power_numeral)
qed

text \<open>
  C3 as stated fails: ten fine channels over three coarse channels are not evenly
  divisible, and the derivation returns a geometry with \<open>fftlen = 3\<close>.
\<close>

theorem fftlen_truncates_counterexample:
  "\<not> (3::int) dvd 10
   \<and> derive_geometry ''src'' 10 16 0 3 =
       Inr \<lparr>tsteps_valid = 16, tsteps = 16, tdwidth = 10, fftlen = 3, shoulder_size = 0,
            coarse_chan = 0,
            header = \<lparr>h_coarse_chan = 0, NAXIS1 = 10, baryv = 0, SOURCE = ''src''\<rparr>\<rparr>"
  by (simp add: derive_geometry_def tsteps_of_16)

text \<open>
  C3, amended. For the inputs that reach line 262, that is \<open>n_ints_in_file\<close> from \<open>1\<close>
  to \<open>2 ^ 64 - 1\<close> and a non-zero \<open>n_fine_chans\<close> below \<open>2 ^ 1024 - 2 ^ 970\<close> in absolute
  value: whenever \<open>n_coarse_chan \<noteq> 0\<close> the derivation succeeds with
  \<open>fftlen = n_fine_chans // n_coarse_chan\<close>, divisible or not, and for a positive
  \<open>n_coarse_chan\<close> this is the quotient rounded down; the division fails only for
  \<open>n_coarse_chan = 0\<close>, with ZeroDivisionError.
\<close>

theorem fftlen_floor_division:
  assumes "1 \<le> n" and "n < 2 ^ 64" and "nf \<noteq> 0" and "\<bar>nf\<bar> < 2 ^ 1024 - 2 ^ 970"
  shows "(nc \<noteq> 0 \<longrightarrow>
            (\<exists>dd. derive_geometry s nf n cc nc = Inr dd \<and> fftlen dd = nf div nc
                  \<and> (0 < nc \<longrightarrow> fftlen dd * nc \<le> nf \<and> nf < (fftlen dd + 1) * nc)))
       \<and> (nc = 0 \<longrightarrow> derive_geometry s nf n cc nc = Inl ZeroDivisionError)"
proof -
  have small: "\<not> 2 ^ 1024 - 2 ^ 970 \<le> \<bar>nf\<bar>" using assms(4) by (simp only: not_le)
  have zero: "derive_geometry s nf n cc nc = Inl ZeroDivisionError" if "nc = 0"
    unfolding derive_geometry_def Let_def tsteps_of_in_range [OF assms(1,2)]
    using that assms(3) small by (simp del: power_numeral)
  have floor_lo: "nf div nc * nc \<le> nf" if "0 < nc"
    using that by (simp add: div_mult_self_is_m minus_mod_eq_div_mult [symmetric])
  have floor_hi: "nf < (nf div nc + 1) * nc" if "0 < nc"
  proof -
    have "nf = nf div nc * nc + nf mod nc" by simp
    moreover have "nf mod nc < nc" using that by simp
    moreover have "(nf div nc + 1) * nc = nf div nc * nc + nc" by (simp add: algebra_simps)
    ultimately show ?thesis by linarith
  qed
  have ok: "\<exists>dd. derive_geometry s nf n cc nc = Inr dd \<and> fftlen dd = nf div nc
              \<and> (0 < nc \<longrightarrow> fftlen dd * nc \<le> nf \<and> nf < (fftlen dd + 1) * nc)"
    if "nc \<noteq> 0"
    using derive_geometry_ok [OF assms that, of s cc] floor_lo floor_hi by simp
  from zero ok show ?thesis by blast
qed

theorem fftlen_floor_division_witness:
  "(1::int) \<le> 16 \<and> (16::int) < 2 ^ 64 \<and> (10::int) \<noteq> 0 \<and> \<bar>10::int\<bar> < 2 ^ 1024 - 2 ^ 970
   \<and> (\<exists>dd. derive_geometry ''src'' 10 16 0 3 = Inr dd \<and> fftlen dd = 3)
   \<and> derive_geometry ''src'' 10 16 0 0 = Inl ZeroDivisionError"
proof -
  have a: "(1::int) \<le> 16" and a': "(16::int) < 2 ^ 64" and b: "(10::int) \<noteq> 0"
    and b': "\<bar>10::int\<bar> < 2 ^ 1024 - 2 ^ 970" by simp_all
  have "\<exists>dd. derive_geometry ''src'' 10 16 0 3 = Inr dd \<and> fftlen dd = 3"
    using fftlen_floor_division [OF a a' b b', of 3 "''src''" 0] by auto
  moreover have "derive_geometry ''src'' 10 16 0 0 = Inl ZeroDivisionError"
    using fftlen_floor_division [OF a a' b b', of 0 "''src''" 0] by simp
  ultimately show ?thesis using a a' b b' by blast
qed

text \<open>
  C4 at 1024 fine channels in two coarse channels, sixteen integrations: \<open>tdwidth\<close> is
  computed from the local \<open>fftlen = n_fine_chans\<close> of line 212 and is \<open>1024\<close>, while the
  \<open>fftlen\<close> entry of line 262 is \<open>512\<close> and \<open>shoulder_size * tsteps\<close> is \<open>0\<close>.
\<close>

theorem tdwidth_uses_full_width:
  "derive_geometry ''src'' 1024 16 0 2 =
     Inr \<lparr>tsteps_valid = 16, tsteps = 16, tdwidth = 1024, fftlen = 512, shoulder_size = 0,
          coarse_chan = 0,
          header = \<lparr>h_coarse_chan = 0, NAXIS1 = 1024, baryv = 0, SOURCE = ''src''\<rparr>\<rparr>
   \<and> (1024::int) \<noteq> 512 + 0 * 16"
  by (simp add: derive_geometry_def tsteps_of_16)

subsection \<open>DataLoader\<close>

lemma apply_load_delivers:
  assumes "delivered frames x = Some m"
  shows "apply_load frames x self = Inr (self\<lparr>spectra := NdArray m\<rparr>)"
  using assms by (cases x) (auto simp: load_def load_file_def split: sum.splits)

lemma run_loads_keeps:
  assumes "\<forall>x \<in> set xs. delivered frames x \<noteq> None"
  shows "\<exists>self'. run_loads frames xs self = Inr self'
           \<and> data_obj self' = data_obj self \<and> drift_indices self' = drift_indices self"
  using assms
proof (induction xs arbitrary: self)
  case Nil
  then show ?case by simp
next
  case (Cons x xs)
  then obtain m where m: "delivered frames x = Some m" by auto
  from Cons.prems have rest: "\<forall>y \<in> set xs. delivered frames y \<noteq> None" by simp
  from Cons.IH [OF rest, of "self\<lparr>spectra := NdArray m\<rparr>"]
  show ?case by (simp add: apply_load_delivers [OF m])
qed

lemma run_loads_append:
  "run_loads frames (xs @ ys) self =
     (case run_loads frames xs self of Inl e \<Rightarrow> Inl e | Inr self' \<Rightarrow> run_loads frames ys self')"
  by (induction xs arbitrary: self) (auto split: sum.splits)

text \<open>
  C8. After any sequence of loads that deliver (a matrix from the stream, or a path that
  setigen decodes), \<open>get\<close> returns the matrix of the last load as it was delivered,
  together with the \<open>data_obj\<close> and the drift indices the loader was built with; nothing
  of the loader's earlier spectra remains.
\<close>

theorem snapshot_is_last_load:
  assumes "\<forall>x \<in> set (xs @ [x']). delivered frames x \<noteq> None"
  shows "\<exists>self' m. run_loads frames (xs @ [x']) self = Inr self'
           \<and> delivered frames x' = Some m
           \<and> get self' = (data_obj self, NdArray m, drift_indices self)"
proof -
  from assms have pre: "\<forall>x \<in> set xs. delivered frames x \<noteq> None" by simp
  from assms obtain m where m: "delivered frames x' = Some m" by auto
  from run_loads_keeps [OF pre, of self] obtain mid where
    mid: "run_loads frames xs self = Inr mid" "data_obj mid = data_obj self"
      "drift_indices mid = drift_indices self" by blast
  have "run_loads frames (xs @ [x']) self = Inr (mid\<lparr>spectra := NdArray m\<rparr>)"
    by (simp add: run_loads_append mid(1) apply_load_delivers [OF m])
  moreover have "get (mid\<lparr>spectra := NdArray m\<rparr>) = (data_obj self, NdArray m, drift_indices self)"
    by (simp add: get_def mid)
  ultimately show ?thesis using m by blast
qed

text \<open>Stream then file, and file then stream, on the loader of the sample finder.\<close>

theorem snapshot_is_last_load_witness:
  "(\<exists>self'. run_loads sample_frames [Load [[9, 9]], LoadFile ''synth.h5'']
               (dataloader sample_finder) = Inr self'
        \<and> get self' = (sample_geometry 8 6, NdArray [[1, 2], [3, 4]], [0, 0, 0, 1, 1, 1]))
   \<and> (\<exists>self'. run_loads sample_frames [LoadFile ''synth.h5'', Load [[9, 9]]]
               (dataloader sample_finder) = Inr self'
        \<and> get self' = (sample_geometry 8 6, NdArray [[9, 9]], [0, 0, 0, 1, 1, 1]))"
proof -
  have a: "\<forall>x \<in> set ([Load [[9, 9]]] @ [LoadFile ''synth.h5'']). delivered sample_frames x \<noteq> None"
    by (simp add: sample_frames_def)
  have b: "\<forall>x \<in> set ([LoadFile ''synth.h5''] @ [Load [[9, 9]]]). delivered sample_frames x \<noteq> None"
    by (simp add: sample_frames_def)
  have "\<exists>self'. run_loads sample_frames [Load [[9, 9]], LoadFile ''synth.h5'']
               (dataloader sample_finder) = Inr self'
        \<and> get self' = (sample_geometry 8 6, NdArray [[1, 2], [3, 4]], [0, 0, 0, 1, 1, 1])"
    using snapshot_is_last_load [OF a, of "dataloader sample_finder"]
    by (auto simp: sample_frames_def sample_finder_def DataLoader_init_def)
  moreover have "\<exists>self'. run_loads sample_frames [LoadFile ''synth.h5'', Load [[9, 9]]]
               (dataloader sample_finder) = Inr self'
        \<and> get self' = (sample_geometry 8 6, NdArray [[9, 9]], [0, 0, 0, 1, 1, 1])"
    using snapshot_is_last_load [OF b, of "dataloader sample_finder"]
    by (auto simp: sample_frames_def sample_finder_def DataLoader_init_def)
  ultimately show ?thesis by blast
qed

lemma sample_finder_constructed:
  "DopplerFinder_init sample_resources ''/data/obs.h5'' ''src'' 8 6 0 1 ''./out/'' False True True
     = Inr sample_finder"
proof -
  have g: "derive_geometry ''src'' 8 6 0 1 = Inr (sample_geometry 8 6)"
    by (simp add: derive_geometry_def tsteps_of_6 sample_geometry_def)
  have l: "load_drift_indexes sample_resources (sample_geometry 8 6) = Inr [0, 0, 0, 1, 1, 1]"
    by (simp add: load_drift_indexes_def sample_geometry_def dia_num_of_8 half_of_8
        sample_resources_def sample_table_def index_row_def slice_to_def)
  show ?thesis by (simp add: DopplerFinder_init_def g l sample_finder_def)
qed

text \<open>
  C10 as stated fails: the placeholder of a fresh loader has two entries, not none.
\<close>

theorem placeholder_counterexample:
  "spectra_size (spectra (DataLoader_init (sample_geometry 8 6) [0, 0, 0, 1, 1, 1]
                           :: real DataLoader)) = 2"
  by (simp add: DataLoader_init_def)

text \<open>
  C10, amended. Before any load the spectra of a loader are the Python list \<open>[0, 0]\<close>:
  two entries, both zero, and not a matrix. This holds for the loader of every finder
  the constructor returns.
\<close>

theorem fresh_placeholder:
  "spectra (DataLoader_init d di :: 'a DataLoader) = PyList [0, 0]
   \<and> spectra_size (spectra (DataLoader_init d di :: 'a DataLoader)) = 2
   \<and> (DopplerFinder_init res f s nf n cc nc od fl ap bdc = Inr (self :: 'a DopplerFinder)
        \<longrightarrow> spectra (dataloader self) = PyList [0, 0])"
  by (auto simp: DataLoader_init_def DopplerFinder_init_def split: sum.splits)

theorem fresh_placeholder_witness:
  "DopplerFinder_init sample_resources ''/data/obs.h5'' ''src'' 8 6 0 1 ''./out/'' False True True
     = Inr sample_finder
   \<and> spectra (dataloader sample_finder) = PyList [0, 0]"
  using fresh_placeholder [of "sample_geometry 8 6" "[]" sample_resources "''/data/obs.h5''"
      "''src''" 8 6 0 1 "''./out/''" False True True sample_finder]
    sample_finder_constructed
  by simp

subsection \<open>Output files of a search\<close>

lemma sample_paths:
  "path_log sample_finder = ''./out/obs.log''" "path_dat sample_finder = ''./out/obs.dat''"
  by (simp_all add: path_log_def path_dat_def wfilename_def sample_finder_def
      last_component_def rstrip_slash_def)

lemma dirname_sample: "dirname ''./out/obs.log'' = ''./out''"
  by (simp add: dirname_def)

lemma paths_differ: "path_log self \<noteq> path_dat self"
  by (simp add: path_log_def path_dat_def)

lemma paths_ignore_instance:
  "path_log (self\<lparr>fd_instance := i\<rparr>) = path_log self"
  "path_dat (self\<lparr>fd_instance := i\<rparr>) = path_dat self"
  by (simp_all add: path_log_def path_dat_def wfilename_def)

lemma remove_if_exists:
  assumes "fs p \<noteq> Some Dir"
  shows "(if os_path_exists fs p then os_remove fs p else Inr fs) = Inr (fs(p := None))"
proof (cases "fs p")
  case None
  then have "fs(p := None) = fs" by (simp add: fun_upd_idem)
  with None show ?thesis by (simp add: os_path_exists_def)
next
  case (Some nd)
  with assms obtain body where "nd = File body" by (cases nd) auto
  with Some show ?thesis by (simp add: os_path_exists_def os_remove_def)
qed

lemma find_ET_common_runs:
  assumes "fs (path_log self) \<noteq> Some Dir" and "fs (path_dat self) \<noteq> Some Dir"
    and "dirname (path_log self) = [] \<or> fs (dirname (path_log self)) = Some Dir"
  shows "find_ET_common preamble self fs =
           Inr (fs(path_log self := None, path_dat self := None,
                   path_log self \<mapsto> File preamble))"
proof -
  define L where "L = path_log self"
  define D where "D = path_dat self"
  have LD: "L \<noteq> D" using paths_differ [of self] by (simp add: L_def D_def)
  have l: "fs L \<noteq> Some Dir" and d: "fs D \<noteq> Some Dir"
    using assms(1,2) by (simp_all add: L_def D_def)
  have par: "dirname L = [] \<or> fs (dirname L) = Some Dir" using assms(3) by (simp add: L_def)
  have s1: "(if os_path_exists fs L then os_remove fs L else Inr fs) = Inr (fs(L := None))"
    by (rule remove_if_exists [of fs L, OF l])
  have "(fs(L := None)) D \<noteq> Some Dir" using d LD by simp
  then have s2: "(if os_path_exists (fs(L := None)) D then os_remove (fs(L := None)) D
                  else Inr (fs(L := None))) = Inr (fs(L := None, D := None))"
    by (rule remove_if_exists [of "fs(L := None)" D])
  have nl: "(fs(L := None, D := None)) L = None" using LD by simp
  have pd: "(fs(L := None, D := None)) (dirname L) = Some Dir" if ne: "dirname L \<noteq> []"
  proof -
    from par ne have dir: "fs (dirname L) = Some Dir" by simp
    with l d have "dirname L \<noteq> L" "dirname L \<noteq> D" by auto
    with dir show ?thesis by simp
  qed
  have s3: "open_write (fs(L := None, D := None)) L preamble
                  = Inr (fs(L := None, D := None, L \<mapsto> File preamble))"
  proof (cases "dirname L = []")
    case True
    with nl show ?thesis by (simp add: open_write_def)
  next
    case False
    with nl pd [OF False] show ?thesis by (simp add: open_write_def)
  qed
  show ?thesis
    unfolding find_ET_common_def L_def [symmetric] D_def [symmetric]
    by (simp only: s1 s2 s3 sum.case)
qed

lemma sample_fs_ready:
  "sample_fs (path_log sample_finder) \<noteq> Some Dir"
  "sample_fs (path_dat sample_finder) \<noteq> Some Dir"
  "dirname (path_log sample_finder) = []
     \<or> sample_fs (dirname (path_log sample_finder)) = Some Dir"
  by (simp_all add: sample_paths dirname_sample sample_fs_def)

text \<open>
  C9 on the sample finder, which was built with \<open>append_output=True\<close>: the \<open>.dat\<close> file of
  the earlier search exists, and after the preparation it is gone and the \<open>.log\<close> file
  holds the new preamble only. The claim has the removal skipped in append mode.
\<close>

theorem append_mode_removes_outputs:
  "append_output (fd_instance sample_finder)
   \<and> sample_fs ''./out/obs.dat'' = Some (File ''old hits'')
   \<and> find_ET_common ''banner'' sample_finder sample_fs =
       Inr (sample_fs(''./out/obs.log'' := None, ''./out/obs.dat'' := None,
                      ''./out/obs.log'' \<mapsto> File ''banner''))
   \<and> (sample_fs(''./out/obs.log'' := None, ''./out/obs.dat'' := None,
                 ''./out/obs.log'' \<mapsto> File ''banner'')) ''./out/obs.dat'' = None"
proof -
  have a: "append_output (fd_instance sample_finder)" by (simp add: sample_finder_def)
  have b: "sample_fs ''./out/obs.dat'' = Some (File ''old hits'')" by (simp add: sample_fs_def)
  have c: "find_ET_common ''banner'' sample_finder sample_fs =
       Inr (sample_fs(''./out/obs.log'' := None, ''./out/obs.dat'' := None,
                      ''./out/obs.log'' \<mapsto> File ''banner''))"
    using find_ET_common_runs [of sample_fs sample_finder "''banner''", OF sample_fs_ready]
    by (simp only: sample_paths)
  have e: "(sample_fs(''./out/obs.log'' := None, ''./out/obs.dat'' := None,
                 ''./out/obs.log'' \<mapsto> File ''banner'')) ''./out/obs.dat'' = None"
    by simp
  from a b c e show ?thesis by blast
qed

text \<open>The preparation never reads \<open>append_output\<close>: changing it changes nothing.\<close>

lemma find_ET_common_ignores_append:
  "find_ET_common preamble (self\<lparr>fd_instance := (fd_instance self)\<lparr>append_output := b\<rparr>\<rparr>) fs
     = find_ET_common preamble self fs"
  unfolding find_ET_common_def paths_ignore_instance by (rule refl)

end
